theory Spec2Isabelle
  imports Main "HOL-Library.Char_ord" "HOL-Library.Sublist" "HOL-Library.Multiset"
begin

section \<open>Strings\<close>

text \<open>
  The program works on Python \<open>str\<close> values. They are modelled as HOL strings, one
  \<open>char\<close> per code point, so the model covers the texts whose code points lie below 256.
  On these texts the case-insensitive matching of \<open>re.IGNORECASE\<close> against the ASCII
  patterns of the program is ASCII case folding, \<open>\d\<close> is \<open>0\<close> to \<open>9\<close>, and the blanks
  of \<open>\s\<close> and of \<open>str.strip\<close> are the twelve code points of \<open>is_space\<close>.
\<close>

definition is_space :: "char \<Rightarrow> bool" where
  "is_space c =
     ((CHR 0x09 \<le> c \<and> c \<le> CHR 0x0D) \<or> (CHR 0x1C \<le> c \<and> c \<le> CHR 0x20) \<or>
      c = CHR 0x85 \<or> c = CHR 0xA0)"

definition is_digit :: "char \<Rightarrow> bool" where
  "is_digit c = (CHR ''0'' \<le> c \<and> c \<le> CHR ''9'')"

definition is_upper :: "char \<Rightarrow> bool" where
  "is_upper c = (CHR ''A'' \<le> c \<and> c \<le> CHR ''Z'')"

definition is_lower :: "char \<Rightarrow> bool" where
  "is_lower c = (CHR ''a'' \<le> c \<and> c \<le> CHR ''z'')"

text \<open>
  ASCII case folding. The two cases of a letter differ by 32, which is bit 5 of the
  code point: set in the small letters, clear in the capitals.
\<close>

definition lower :: "char \<Rightarrow> char" where
  "lower c =
     (if is_upper c
      then (case c of Char b0 b1 b2 b3 b4 b5 b6 b7 \<Rightarrow> Char b0 b1 b2 b3 b4 True b6 b7)
      else c)"

definition upper :: "char \<Rightarrow> char" where
  "upper c =
     (if is_lower c
      then (case c of Char b0 b1 b2 b3 b4 b5 b6 b7 \<Rightarrow> Char b0 b1 b2 b3 b4 False b6 b7)
      else c)"

text \<open>\<open>str.strip()\<close>: blanks removed at both ends.\<close>

definition strip :: "string \<Rightarrow> string" where
  "strip s = rev (dropWhile is_space (rev (dropWhile is_space s)))"

text \<open>
  \<open>str.upper()\<close> and \<open>str.capitalize()\<close>. The program applies them to matches of
  \<open>(IT|Dept)\<close>, \<open>(Blood|Urine|Hair|Saliva)\<close> and \<open>(Negative|Positive|Pending)\<close> only,
  which consist of ASCII letters.
\<close>

definition str_upper :: "string \<Rightarrow> string" where
  "str_upper s = map upper s"

definition capitalize :: "string \<Rightarrow> string" where
  "capitalize s = (case s of [] \<Rightarrow> [] | c # cs \<Rightarrow> upper c # map lower cs)"

text \<open>\<open>sep.join(xs)\<close>.\<close>

fun join :: "string \<Rightarrow> string list \<Rightarrow> string" where
  "join sep [] = []"
| "join sep [x] = x"
| "join sep (x # y # zs) = x @ sep @ join sep (y # zs)"

text \<open>
  \<open>s.replace(old, new)\<close>: the occurrences of \<open>old\<close> are replaced from left to right
  without overlap; an empty \<open>old\<close> puts \<open>new\<close> before every character and at the end.
\<close>

fun replace :: "string \<Rightarrow> string \<Rightarrow> string \<Rightarrow> string" where
  "replace old new [] = (if old = [] then new else [])"
| "replace old new (c # cs) =
     (if old = [] then new @ c # replace old new cs
      else if prefix old (c # cs) then new @ replace old new (drop (length old - 1) cs)
      else c # replace old new cs)"

text \<open>\<open>s.split(sep)\<close> for a separator of one character.\<close>

fun split_on :: "char \<Rightarrow> string \<Rightarrow> string list" where
  "split_on sep [] = [[]]"
| "split_on sep (c # cs) =
     (if c = sep then [] # split_on sep cs
      else (case split_on sep cs of [] \<Rightarrow> [[c]] | p # ps \<Rightarrow> (c # p) # ps))"

section \<open>Regular expressions\<close>

text \<open>
  The patterns of the program are built from literals, repetitions of a character class,
  sequence, alternation, one capturing group, a lookahead and \<open>$\<close>. \<open>rmatch\<close> is the
  backtracking matcher of \<open>re\<close> on this fragment: it returns the states reachable by a
  match that starts at the given state, in the order in which backtracking tries them,
  so the head of the list is the match \<open>re\<close> reports. A state is the text still to be
  read and the text of group 1, if the group has taken part.
\<close>

datatype citem = Chr char | Range char char | Space | Digit | Dot

fun item_has :: "citem \<Rightarrow> char \<Rightarrow> bool" where
  "item_has (Chr a) c = (c = a)"
| "item_has (Range a b) c = (a \<le> c \<and> c \<le> b)"
| "item_has Space c = is_space c"
| "item_has Digit c = is_digit c"
| "item_has Dot c = (c \<noteq> CHR 0x0A)"

text \<open>
  Membership in a class. Under \<open>re.IGNORECASE\<close> a character is in the class when it,
  its small letter or its capital is.
\<close>

fun class_has :: "citem list \<Rightarrow> char \<Rightarrow> bool" where
  "class_has [] c = False"
| "class_has (i # is) c = (if item_has i c then True else class_has is c)"

definition in_class :: "bool \<Rightarrow> citem list \<Rightarrow> char \<Rightarrow> bool" where
  "in_class ic items c =
     (if class_has items c then True
      else if ic then (if class_has items (lower c) then True else class_has items (upper c))
      else False)"

datatype regex =
    Lit string
  | Rep "citem list" nat "nat option" bool
  | Seq regex regex
  | Alt regex regex
  | Group regex
  | Lookahead regex
  | Eos

type_synonym mstate = "string \<times> string option"

text \<open>
  A literal matches at the head of the text, character by character; under
  \<open>re.IGNORECASE\<close> two characters agree when their small letters do.
\<close>

definition char_eq :: "bool \<Rightarrow> char \<Rightarrow> char \<Rightarrow> bool" where
  "char_eq ic a c = (if a = c then True else if ic then lower a = lower c else False)"

fun lit_match :: "bool \<Rightarrow> string \<Rightarrow> string \<Rightarrow> bool" where
  "lit_match ic [] s = True"
| "lit_match ic (a # w) [] = False"
| "lit_match ic (a # w) (c # s) = (if char_eq ic a c then lit_match ic w s else False)"

primrec rmatch :: "bool \<Rightarrow> regex \<Rightarrow> mstate \<Rightarrow> mstate list" where
  "rmatch ic (Lit w) st =
     (if lit_match ic w (fst st) then [(drop (length w) (fst st), snd st)] else [])"
| "rmatch ic (Rep cls lo hi greedy) st =
     (let n = length (takeWhile (in_class ic cls) (fst st));
          m = (case hi of None \<Rightarrow> n | Some h \<Rightarrow> min h n);
          ks = [lo..<Suc m]
      in map (\<lambda>k. (drop k (fst st), snd st)) (if greedy then rev ks else ks))"
| "rmatch ic (Seq a b) st = concat (map (rmatch ic b) (rmatch ic a st))"
| "rmatch ic (Alt a b) st = rmatch ic a st @ rmatch ic b st"
| "rmatch ic (Group a) st =
     map (\<lambda>st'. (fst st', Some (take (length (fst st) - length (fst st')) (fst st))))
       (rmatch ic a st)"
| "rmatch ic (Lookahead a) st = (if rmatch ic a st = [] then [] else [st])"
| "rmatch ic Eos st = (if fst st = [] \<or> fst st = [CHR 0x0A] then [st] else [])"

text \<open>A match object: \<open>m.group()\<close> and \<open>m.group(1)\<close>.\<close>

record match_obj =
  group0 :: string
  group1 :: "string option"

definition match_at :: "bool \<Rightarrow> regex \<Rightarrow> string \<Rightarrow> match_obj option" where
  "match_at ic r s =
     (case rmatch ic r (s, None) of
        [] \<Rightarrow> None
      | st # _ \<Rightarrow> Some \<lparr>group0 = take (length s - length (fst st)) s, group1 = snd st\<rparr>)"

text \<open>\<open>re.search\<close>: the first start position, from the left, at which the pattern matches.\<close>

fun re_search :: "bool \<Rightarrow> regex \<Rightarrow> string \<Rightarrow> match_obj option" where
  "re_search ic r [] = match_at ic r []"
| "re_search ic r (c # cs) =
     (case match_at ic r (c # cs) of None \<Rightarrow> re_search ic r cs | Some m \<Rightarrow> Some m)"

section \<open>Errors\<close>

datatype pyerror = ValueError string | IndexError | AttributeError | KeyError "string list"

section \<open>Dates\<close>

text \<open>
  \<open>int(s)\<close> on the pieces of a date: a non-empty string of decimal digits is its value,
  anything else is answered \<open>ValueError\<close>. (The signs, blanks and underscores that
  \<open>int\<close> accepts as well cannot occur in a piece of a match of \<open>\d{1,2}/\d{1,2}/\d{4}\<close>.)
\<close>

definition digit_val :: "char \<Rightarrow> nat" where
  "digit_val c = of_char c - 48"

definition int_py :: "string \<Rightarrow> pyerror + nat" where
  "int_py s =
     (if s \<noteq> [] \<and> list_all is_digit s then Inr (foldl (\<lambda>a c. 10 * a + digit_val c) 0 s)
      else Inl (ValueError ''invalid literal for int() with base 10''))"

text \<open>The format specifications \<open>04d\<close> and \<open>02d\<close>: decimal, padded with zeros on the left.\<close>

fun dec :: "nat \<Rightarrow> string" where
  "dec n = (if n < 10 then [''0123456789'' ! n] else dec (n div 10) @ [''0123456789'' ! (n mod 10)])"

declare dec.simps [simp del]

definition fmt_d :: "nat \<Rightarrow> nat \<Rightarrow> string" where
  "fmt_d width n = replicate (width - length (dec n)) (CHR ''0'') @ dec n"

text \<open>
  \<open>datetime.strptime(v, '%Y-%m-%d')\<close>: the year is four digits, the month one of
  \<open>1[0-2]|0[1-9]|[1-9]\<close>, the day one of \<open>3[01]|[12]\d|0[1-9]|[1-9]| [1-9]\<close>, nothing
  may remain, and the three numbers must make a date of the proleptic Gregorian calendar
  from year 1 on. Every failure is a \<open>ValueError\<close>.
\<close>

definition leap :: "nat \<Rightarrow> bool" where
  "leap y = (y mod 4 = 0 \<and> (y mod 100 \<noteq> 0 \<or> y mod 400 = 0))"

definition days_in_month :: "nat \<Rightarrow> nat \<Rightarrow> nat" where
  "days_in_month y m =
     (if m = 2 then (if leap y then 29 else 28)
      else if m = 4 \<or> m = 6 \<or> m = 9 \<or> m = 11 then 30 else 31)"

definition month_text :: "string \<Rightarrow> nat option" where
  "month_text s =
     (case int_py s of
        Inr n \<Rightarrow> if length s \<le> 2 \<and> 1 \<le> n \<and> n \<le> 12 then Some n else None
      | Inl _ \<Rightarrow> None)"

definition day_text :: "string \<Rightarrow> nat option" where
  "day_text s =
     (case int_py (if length s = 2 \<and> hd s = CHR '' '' then tl s else s) of
        Inr n \<Rightarrow> if length s \<le> 2 \<and> 1 \<le> n \<and> n \<le> 31 then Some n else None
      | Inl _ \<Rightarrow> None)"

definition strptime_ymd :: "string \<Rightarrow> pyerror + (nat \<times> nat \<times> nat)" where
  "strptime_ymd v =
     (case split_on (CHR ''-'') v of
        [ys, ms, ds] \<Rightarrow>
          (case (if length ys = 4 then int_py ys else Inl (ValueError ''format''),
                 month_text ms, day_text ds) of
             (Inr y, Some m, Some d) \<Rightarrow>
               if 1 \<le> y \<and> d \<le> days_in_month y m then Inr (y, m, d)
               else Inl (ValueError ''day is out of range for month'')
           | _ \<Rightarrow> Inl (ValueError ''time data does not match format''))
      | _ \<Rightarrow> Inl (ValueError ''time data does not match format''))"

text \<open>
  The body of the \<open>try\<close> for TestDate: unpack \<open>map(int, value.split('/'))\<close> into month,
  day and year, format, and let \<open>strptime\<close> check the result.
\<close>

definition to_iso :: "string \<Rightarrow> pyerror + string" where
  "to_iso v =
     (case split_on (CHR ''/'') v of
        [a, b, c] \<Rightarrow>
          (case int_py a of
             Inl e \<Rightarrow> Inl e
           | Inr month \<Rightarrow>
               (case int_py b of
                  Inl e \<Rightarrow> Inl e
                | Inr day \<Rightarrow>
                    (case int_py c of
                       Inl e \<Rightarrow> Inl e
                     | Inr year \<Rightarrow>
                         (let formatted = fmt_d 4 year @ ''-'' @ fmt_d 2 month @ ''-'' @ fmt_d 2 day
                          in (case strptime_ymd formatted of Inl e \<Rightarrow> Inl e | Inr _ \<Rightarrow> Inr formatted)))))
      | _ \<Rightarrow> Inl (ValueError ''wrong number of values to unpack''))"

section \<open>The field parser\<close>

text \<open>
  The dictionary \<open>fields\<close> has the same seven keys from its creation on, in the order
  of \<open>field_keys\<close>; a value is \<open>None\<close> or a string. It is modelled as a function on
  the keys, and \<open>items\<close> lists it in the order of the dictionary.
\<close>

datatype key = EmployeeID | Name | Department | TestDate | TestType | Result | Notes

type_synonym fields = "key \<Rightarrow> string option"

definition field_keys :: "key list" where
  "field_keys = [EmployeeID, Name, Department, TestDate, TestType, Result, Notes]"

fun key_name :: "key \<Rightarrow> string" where
  "key_name EmployeeID = ''EmployeeID''"
| "key_name Name = ''Name''"
| "key_name Department = ''Department''"
| "key_name TestDate = ''TestDate''"
| "key_name TestType = ''TestType''"
| "key_name Result = ''Result''"
| "key_name Notes = ''Notes''"

definition items :: "fields \<Rightarrow> (key \<times> string option) list" where
  "items f = map (\<lambda>k. (k, f k)) field_keys"

definition init_fields :: fields where
  "init_fields = (\<lambda>k. None)"

text \<open>Python's truth value of a field: \<open>None\<close> and the empty string are false.\<close>

fun truthy :: "string option \<Rightarrow> bool" where
  "truthy None = False"
| "truthy (Some s) = (s \<noteq> [])"

subsection \<open>Step 1: corrections\<close>

definition corrections :: "(string \<times> string) list" where
  "corrections =
     [(''EmPloxe TUl'', ''EmployeeID''),
      (''91 91'', ''911911''),
      (''Nam e ['', ''Name''),
      (''Go kon'', ''Brifon''),
      (''Peloarz'', ''Peter''),
      (''TT'', ''IT''),
      (''414n) 025'', ''9/14/2025''),
      (''Test Tz/c7'', ''TestType''),
      (''Bloos'', ''Blood''),
      (''Koroj'', ''Result''),
      (''Kegaon +ot'', ''Negative''),
      (''No ko'', ''Notes''),
      (''Ronv om +est'', ''Random test'')]"

definition apply_corrections :: "string \<Rightarrow> string" where
  "apply_corrections text = foldl (\<lambda>t (old, new). replace old new t) text corrections"

subsection \<open>Step 2: the labelled patterns\<close>

definition seps :: regex where
  "seps = Rep [Chr (CHR '':''), Space] 0 None True"

definition letters :: "citem list" where
  "letters = [Range (CHR ''A'') (CHR ''Z''), Range (CHR ''a'') (CHR ''z'')]"

definition date_shape :: regex where
  "date_shape =
     Seq (Rep [Digit] 1 (Some 2) True)
       (Seq (Lit ''/'')
          (Seq (Rep [Digit] 1 (Some 2) True)
             (Seq (Lit ''/'') (Rep [Digit] 4 (Some 4) True))))"

text \<open>\<open>\d{6}\<close>, and the pattern of EmployeeID, \<open>EmployeeID[:\s]*(\d{6})\<close>.\<close>

definition six_digits :: regex where
  "six_digits = Rep [Digit] 6 (Some 6) True"

definition pat_EmployeeID :: regex where
  "pat_EmployeeID = Seq (Lit ''EmployeeID'') (Seq seps (Group six_digits))"

definition patterns :: "(key \<times> regex) list" where
  "patterns =
     [(EmployeeID, pat_EmployeeID),
      (Name, Seq (Lit ''Name'') (Seq seps (Group (Rep (letters @ [Space]) 1 None True)))),
      (Department,
         Seq (Alt (Lit ''Department'') (Lit ''IT''))
           (Seq seps (Group (Rep (letters @ [Space]) 1 None True)))),
      (TestDate,
         Seq (Alt (Lit ''TestDate'') (Lit ''9/14/2025'')) (Seq seps (Group date_shape))),
      (TestType,
         Seq (Alt (Lit ''TestType'') (Lit ''Blood'')) (Seq seps (Group (Rep letters 1 None True)))),
      (Result,
         Seq (Alt (Lit ''Result'') (Lit ''Negative'')) (Seq seps (Group (Rep letters 1 None True)))),
      (Notes,
         Seq (Alt (Lit ''Notes'') (Lit ''Random test''))
           (Seq seps
              (Seq (Group (Rep [Dot] 1 None False))
                 (Lookahead (Alt (Lit [CHR 0x0A]) Eos)))))]"

text \<open>
  One round of the loop over \<open>patterns.items()\<close>. \<open>match.group(1).strip()\<close> raises
  \<open>AttributeError\<close> when group 1 has not taken part; the \<open>except\<close> clause of TestDate
  catches \<open>ValueError\<close> and \<open>IndexError\<close> and lets every other exception pass.
\<close>

definition primary_step :: "string \<Rightarrow> key \<times> regex \<Rightarrow> fields \<Rightarrow> pyerror + fields" where
  "primary_step text kp flds =
     (case re_search True (snd kp) text of
        None \<Rightarrow> Inr flds
      | Some m \<Rightarrow>
          (case group1 m of
             None \<Rightarrow> Inl AttributeError
           | Some g \<Rightarrow>
               (let v = strip g
                in if fst kp = TestDate then
                     (case to_iso v of
                        Inr formatted \<Rightarrow> Inr (flds(TestDate := Some formatted))
                      | Inl (ValueError _) \<Rightarrow> Inr (flds(TestDate := None))
                      | Inl IndexError \<Rightarrow> Inr (flds(TestDate := None))
                      | Inl e \<Rightarrow> Inl e)
                   else Inr (flds(fst kp := Some v)))))"

fun primary_loop :: "string \<Rightarrow> (key \<times> regex) list \<Rightarrow> fields \<Rightarrow> pyerror + fields" where
  "primary_loop text [] flds = Inr flds"
| "primary_loop text (kp # kps) flds =
     (case primary_step text kp flds of
        Inl e \<Rightarrow> Inl e
      | Inr flds' \<Rightarrow> primary_loop text kps flds')"

subsection \<open>Step 3: the fallbacks\<close>

definition fb_EmployeeID :: "string \<Rightarrow> fields \<Rightarrow> fields" where
  "fb_EmployeeID text flds =
     (if \<not> truthy (flds EmployeeID) then
        (case re_search False six_digits text of
           Some m \<Rightarrow> flds(EmployeeID := Some (group0 m))
         | None \<Rightarrow> flds)
      else flds)"

definition fb_Name :: "string \<Rightarrow> fields \<Rightarrow> fields" where
  "fb_Name text flds =
     (if \<not> truthy (flds Name) then
        (case re_search True
                (Group (Seq (Lit ''Peter'') (Seq (Rep [Space] 0 None True) (Rep letters 1 None True))))
                text of
           Some m \<Rightarrow> flds(Name := Some (group0 m))
         | None \<Rightarrow> flds)
      else flds)"

definition fb_Department :: "string \<Rightarrow> fields \<Rightarrow> fields" where
  "fb_Department text flds =
     (if \<not> truthy (flds Department) then
        (case re_search True (Group (Alt (Lit ''IT'') (Lit ''Dept''))) text of
           Some m \<Rightarrow> flds(Department := Some (str_upper (group0 m)))
         | None \<Rightarrow> flds)
      else flds)"

definition fb_TestDate :: "string \<Rightarrow> fields \<Rightarrow> fields" where
  "fb_TestDate text flds =
     (if \<not> truthy (flds TestDate) then
        (case re_search False (Group date_shape) text of
           Some m \<Rightarrow> flds(TestDate := Some (group0 m))
         | None \<Rightarrow> flds)
      else flds)"

definition fb_TestType :: "string \<Rightarrow> fields \<Rightarrow> fields" where
  "fb_TestType text flds =
     (if \<not> truthy (flds TestType) then
        (case re_search True
                (Group (Alt (Lit ''Blood'') (Alt (Lit ''Urine'') (Alt (Lit ''Hair'') (Lit ''Saliva'')))))
                text of
           Some m \<Rightarrow> flds(TestType := Some (capitalize (group0 m)))
         | None \<Rightarrow> flds)
      else flds)"

definition fb_Result :: "string \<Rightarrow> fields \<Rightarrow> fields" where
  "fb_Result text flds =
     (if \<not> truthy (flds Result) then
        (case re_search True
                (Group (Alt (Lit ''Negative'') (Alt (Lit ''Positive'') (Lit ''Pending''))))
                text of
           Some m \<Rightarrow> flds(Result := Some (capitalize (group0 m)))
         | None \<Rightarrow> flds)
      else flds)"

definition fb_Notes :: "string \<Rightarrow> fields \<Rightarrow> pyerror + fields" where
  "fb_Notes text flds =
     (if \<not> truthy (flds Notes) then
        (case re_search True
                (Seq (Lit ''Notes'') (Seq (Rep [Space] 0 None True) (Group (Rep [Dot] 1 None True))))
                text of
           Some m \<Rightarrow>
             (case group1 m of
                None \<Rightarrow> Inl AttributeError
              | Some g \<Rightarrow> Inr (flds(Notes := Some (strip g))))
         | None \<Rightarrow> Inr flds)
      else Inr flds)"

definition fallbacks :: "string \<Rightarrow> fields \<Rightarrow> pyerror + fields" where
  "fallbacks text flds =
     fb_Notes text
       (fb_Result text (fb_TestType text (fb_TestDate text
          (fb_Department text (fb_Name text (fb_EmployeeID text flds))))))"

subsection \<open>Step 4: validation\<close>

definition required :: "key list" where
  "required = [Name, TestDate, TestType]"

definition missing :: "fields \<Rightarrow> key list" where
  "missing flds = filter (\<lambda>k. k \<in> set required \<and> \<not> truthy (flds k)) field_keys"

definition incomplete :: "key list \<Rightarrow> pyerror" where
  "incomplete ks = ValueError (''Incomplete data: Missing '' @ join '', '' (map key_name ks) @ ''.'')"

definition validate :: "fields \<Rightarrow> pyerror + fields" where
  "validate flds =
     (if \<not> list_all (\<lambda>k. truthy (flds k)) required then Inl (incomplete (missing flds))
      else Inr flds)"

text \<open>The stages before validation, and the whole of \<open>parse_fields\<close>.\<close>

definition extract_fields :: "string \<Rightarrow> pyerror + fields" where
  "extract_fields text0 =
     (let text = apply_corrections text0
      in (case primary_loop text patterns init_fields of
            Inl e \<Rightarrow> Inl e
          | Inr flds \<Rightarrow> fallbacks text flds))"

definition parse_fields :: "string \<Rightarrow> pyerror + fields" where
  "parse_fields text0 =
     (case extract_fields text0 of Inl e \<Rightarrow> Inl e | Inr flds \<Rightarrow> validate flds)"

section \<open>Text reconstruction\<close>

text \<open>
  \<open>reader.readtext(..., detail=1)\<close> returns one triple per fragment: the bounding box
  (four corner points, the first one top left), the text and the confidence. The
  recognizer is outside the program; its result is the input of the model.
  \<open>list.sort(key=...)\<close> is a stable sort, as \<open>sort_key\<close> is.
\<close>

type_synonym point = "int \<times> int"

type_synonym 'c fragment = "(point \<times> point \<times> point \<times> point) \<times> string \<times> 'c"

definition top_left_y :: "'c fragment \<Rightarrow> int" where
  "top_left_y x = snd (fst (fst x))"

definition extract_text_from_image :: "'c fragment list \<Rightarrow> string" where
  "extract_text_from_image result =
     (let sorted_result = sort_key top_left_y result;
          text_segments = map (\<lambda>item. (fst (snd item), fst item)) sorted_result
      in join '' '' (map fst text_segments))"

section \<open>The record store\<close>

text \<open>
  The file \<open>DrugTestingOrganizer.csv\<close> is a header and rows of text cells; the store is
  \<open>None\<close> while the file does not exist. A data frame has its column names and, for
  each row, the value under every name (\<open>None\<close> for a missing value). The file stands
  for the table that its lines are read as: the quoting of the format is taken to bring
  back the rows and cells that were written. When pandas reads the file it decides for
  every cell which value it holds (a missing value for an empty cell and for texts such
  as \<open>NA\<close>, a number for digits); this inference is the parameter \<open>infer\<close>, which gives
  the cells as pandas will write them again.
\<close>

record csv_file =
  header :: "key list"
  body :: "string list list"

record dataframe =
  columns :: "key list"
  data :: "(key \<Rightarrow> string option) list"

definition dict_get :: "(key \<times> string option) list \<Rightarrow> key \<Rightarrow> string option" where
  "dict_get d k = (case map_of d k of None \<Rightarrow> None | Some v \<Rightarrow> v)"

definition read_csv :: "(string list list \<Rightarrow> string option list list) \<Rightarrow> csv_file \<Rightarrow> dataframe" where
  "read_csv infer file =
     \<lparr>columns = header file,
      data = map (\<lambda>cells. dict_get (zip (header file) cells)) (infer (body file))\<rparr>"

definition cell_text :: "string option \<Rightarrow> string" where
  "cell_text v = (case v of None \<Rightarrow> [] | Some s \<Rightarrow> s)"

definition to_csv :: "dataframe \<Rightarrow> csv_file" where
  "to_csv df =
     \<lparr>header = columns df,
      body = map (\<lambda>row. map (\<lambda>c. cell_text (row c)) (columns df)) (data df)\<rparr>"

text \<open>\<open>pd.concat([df, new_row], ignore_index=True)\<close>: the rows of both, under the union of the columns.\<close>

definition concat_frames :: "dataframe \<Rightarrow> dataframe \<Rightarrow> dataframe" where
  "concat_frames df new_row =
     \<lparr>columns = columns df @ filter (\<lambda>c. c \<notin> set (columns df)) (columns new_row),
      data = data df @ data new_row\<rparr>"

text \<open>
  \<open>df[column_order]\<close>: when columns are not there, a \<open>KeyError\<close> that lists the names
  of all of them.
\<close>

definition select_columns :: "dataframe \<Rightarrow> key list \<Rightarrow> pyerror + dataframe" where
  "select_columns df cols =
     (case filter (\<lambda>c. c \<notin> set (columns df)) cols of
        [] \<Rightarrow> Inr (df\<lparr>columns := cols\<rparr>)
      | c # cs \<Rightarrow> Inl (KeyError (map key_name (c # cs))))"

definition column_order :: "key list" where
  "column_order = [EmployeeID, Name, Department, TestDate, TestType, Result, Notes]"

text \<open>
  \<open>add_to_csv\<close> returns the new store and either the error raised or the one-row frame
  whose rendering the caller displays. The file is written before the new row is rendered.
\<close>

definition add_to_csv ::
  "(string list list \<Rightarrow> string option list list) \<Rightarrow> (key \<times> string option) list \<Rightarrow>
     csv_file option \<Rightarrow> csv_file option \<times> (pyerror + dataframe)" where
  "add_to_csv infer flds store =
     (let df = (case store of
                  Some file \<Rightarrow> read_csv infer file
                | None \<Rightarrow> \<lparr>columns = column_order, data = []\<rparr>);
          new_row = \<lparr>columns = map fst flds, data = [dict_get flds]\<rparr>;
          df' = concat_frames df new_row
      in (case select_columns df' column_order of
            Inl e \<Rightarrow> (store, Inl e)
          | Inr df'' \<Rightarrow> (Some (to_csv df''), select_columns new_row column_order)))"

section \<open>The callback of the shell\<close>

text \<open>
  \<open>select_image\<close> after the recognizer has run: \<open>None\<close> stands for a dialog closed
  without a file. Whatever is raised inside the \<open>try\<close> ends the run and is displayed.
\<close>

datatype outcome = NoFile | Failed pyerror | Added dataframe

definition select_image ::
  "(string list list \<Rightarrow> string option list list) \<Rightarrow> 'c fragment list option \<Rightarrow>
     csv_file option \<Rightarrow> csv_file option \<times> outcome" where
  "select_image infer picked store =
     (case picked of
        None \<Rightarrow> (store, NoFile)
      | Some result \<Rightarrow>
          (let text = extract_text_from_image result
           in (case parse_fields text of
                 Inl e \<Rightarrow> (store, Failed e)
               | Inr flds \<Rightarrow>
                   (case add_to_csv infer (items flds) store of
                      (store', Inl e) \<Rightarrow> (store', Failed e)
                    | (store', Inr shown) \<Rightarrow> (store', Added shown)))))"

section \<open>Notions used in the statements\<close>

text \<open>The shape \<open>YYYY-MM-DD\<close> of an ISO 8601 date.\<close>

definition iso_shape :: "string \<Rightarrow> bool" where
  "iso_shape s =
     (case s of
        [y1, y2, y3, y4, h1, m1, m2, h2, d1, d2] \<Rightarrow>
          list_all is_digit [y1, y2, y3, y4, m1, m2, d1, d2] \<and> h1 = CHR ''-'' \<and> h2 = CHR ''-''
      | _ \<Rightarrow> False)"

text \<open>A pattern in which group 1 takes part in every match.\<close>

fun sets_group :: "regex \<Rightarrow> bool" where
  "sets_group (Group a) = True"
| "sets_group (Seq a b) = (sets_group a \<or> sets_group b)"
| "sets_group (Alt a b) = (sets_group a \<and> sets_group b)"
| "sets_group (Lit w) = False"
| "sets_group (Rep cls lo hi greedy) = False"
| "sets_group (Lookahead a) = False"
| "sets_group Eos = False"




text \<open>
  The row written for a record, and the rows of the file after a run of calls: every
  call writes the rows it has read, as \<open>infer\<close> holds them, and the new row after them.
\<close>

definition row_of :: "(key \<times> string option) list \<Rightarrow> string list" where
  "row_of d = map (\<lambda>c. cell_text (dict_get d c)) column_order"

















section \<open>Validation\<close>

lemma missing_eq:
  "missing flds = filter (\<lambda>k. \<not> truthy (flds k)) [Name, TestDate, TestType]"
  by (simp add: missing_def field_keys_def required_def)

lemma validate_incomplete:
  assumes "\<not> truthy (flds Name) \<or> \<not> truthy (flds TestDate) \<or> \<not> truthy (flds TestType)"
  shows "validate flds = Inl (incomplete (missing flds))"
  using assms by (auto simp add: validate_def required_def)

lemma validate_complete:
  assumes "truthy (flds Name)" "truthy (flds TestDate)" "truthy (flds TestType)"
  shows "validate flds = Inr flds"
  using assms by (simp add: validate_def required_def)

lemma items_Inl: "map_sum id items x = Inl e \<Longrightarrow> x = Inl e"
  by (cases x) simp_all

lemma department_only_items:
  "map_sum id items (parse_fields ''Department: IT'') =
     Inl (ValueError ''Incomplete data: Missing Name, TestDate, TestType.'')"
  by code_simp

lemma department_only:
  "parse_fields ''Department: IT'' = Inl (ValueError ''Incomplete data: Missing Name, TestDate, TestType.'')"
  by (rule items_Inl [OF department_only_items])

text \<open>
  Claim C3. When Name, TestDate or TestType is empty after the extraction stages,
  \<open>parse_fields\<close> raises the error that names exactly the empty required fields, in the
  order Name, TestDate, TestType; the callback then never reaches \<open>add_to_csv\<close> and
  leaves the store as it was. For the text \<open>Department: IT\<close> the error names all three.
\<close>

theorem C3_incomplete_fails_before_storage:
  assumes "extract_fields text = Inr flds"
    and "\<not> truthy (flds Name) \<or> \<not> truthy (flds TestDate) \<or> \<not> truthy (flds TestType)"
  shows "parse_fields text =
           Inl (incomplete (filter (\<lambda>k. \<not> truthy (flds k)) [Name, TestDate, TestType]))
       \<and> filter (\<lambda>k. \<not> truthy (flds k)) [Name, TestDate, TestType] \<noteq> []
       \<and> (extract_text_from_image result = text \<longrightarrow>
            select_image infer (Some result) store =
              (store, Failed (incomplete (filter (\<lambda>k. \<not> truthy (flds k)) [Name, TestDate, TestType]))))
       \<and> select_image infer (Some [(box, ''Department: IT'', conf)]) store =
            (store, Failed (ValueError ''Incomplete data: Missing Name, TestDate, TestType.''))"
proof -
  let ?ms = "filter (\<lambda>k. \<not> truthy (flds k)) [Name, TestDate, TestType]"
  have p: "parse_fields text = Inl (incomplete ?ms)"
    using assms by (simp add: parse_fields_def validate_incomplete missing_eq)
  have ne: "?ms \<noteq> []"
    using assms(2) by auto
  have s: "extract_text_from_image result = text \<longrightarrow>
            select_image infer (Some result) store = (store, Failed (incomplete ?ms))"
    using p by (simp add: select_image_def)
  have t: "extract_text_from_image [(box, ''Department: IT'', conf)] = ''Department: IT''"
    by (simp add: extract_text_from_image_def)
  have d: "select_image infer (Some [(box, ''Department: IT'', conf)]) store =
            (store, Failed (ValueError ''Incomplete data: Missing Name, TestDate, TestType.''))"
    using t department_only by (simp add: select_image_def)
  from p ne s d show ?thesis by blast
qed

section \<open>Stages\<close>

lemma fb_EmployeeID_keeps: "truthy (flds k) \<Longrightarrow> fb_EmployeeID text flds k = flds k"
  by (auto simp add: fb_EmployeeID_def split: option.splits)
lemma fb_Name_keeps: "truthy (flds k) \<Longrightarrow> fb_Name text flds k = flds k"
  by (auto simp add: fb_Name_def split: option.splits)
lemma fb_Department_keeps: "truthy (flds k) \<Longrightarrow> fb_Department text flds k = flds k"
  by (auto simp add: fb_Department_def split: option.splits)
lemma fb_TestDate_keeps: "truthy (flds k) \<Longrightarrow> fb_TestDate text flds k = flds k"
  by (auto simp add: fb_TestDate_def split: option.splits)
lemma fb_TestType_keeps: "truthy (flds k) \<Longrightarrow> fb_TestType text flds k = flds k"
  by (auto simp add: fb_TestType_def split: option.splits)
lemma fb_Result_keeps: "truthy (flds k) \<Longrightarrow> fb_Result text flds k = flds k"
  by (auto simp add: fb_Result_def split: option.splits)
lemma fb_Notes_keeps: "fb_Notes text flds = Inr f \<Longrightarrow> truthy (flds k) \<Longrightarrow> f k = flds k"
  by (auto simp add: fb_Notes_def split: option.splits if_splits)

lemma fallbacks_keep:
  assumes "fallbacks text flds = Inr f" and "truthy (flds k)"
  shows "f k = flds k"
proof -
  let ?g = "fb_Result text (fb_TestType text (fb_TestDate text
          (fb_Department text (fb_Name text (fb_EmployeeID text flds)))))"
  have g: "?g k = flds k"
    using assms(2)
    by (simp add: fb_EmployeeID_keeps fb_Name_keeps fb_Department_keeps fb_TestDate_keeps
        fb_TestType_keeps fb_Result_keeps)
  have n: "fb_Notes text ?g = Inr f"
    using assms(1) by (simp add: fallbacks_def)
  have "truthy (?g k)"
    using g assms(2) by simp
  with n have "f k = ?g k"
    by (rule fb_Notes_keeps)
  with g show ?thesis by simp
qed

lemma validate_same: "validate flds = Inr f \<Longrightarrow> f = flds"
  by (auto simp add: validate_def split: if_splits)

text \<open>
  Claim C6. The labelled patterns run first and the fallbacks work on the fields they
  leave; a field that holds a non-empty value after the labelled patterns has the same
  value in the result of the extraction and in the record returned, and no fallback
  changes a field that is non-empty when it runs.
\<close>

theorem C6_set_field_not_overwritten:
  assumes "primary_loop (apply_corrections text) patterns init_fields = Inr p"
    and "truthy (p k)"
  shows "extract_fields text = fallbacks (apply_corrections text) p
       \<and> (\<forall>f. extract_fields text = Inr f \<longrightarrow> f k = p k)
       \<and> (\<forall>f. parse_fields text = Inr f \<longrightarrow> f k = p k)
       \<and> (\<forall>flds f. truthy (flds k) \<and> fallbacks text flds = Inr f \<longrightarrow> f k = flds k)"
proof -
  have a: "\<forall>f. extract_fields text = Inr f \<longrightarrow> f k = p k"
    using assms by (auto simp add: extract_fields_def Let_def dest: fallbacks_keep)
  have b: "\<forall>f. parse_fields text = Inr f \<longrightarrow> f k = p k"
    using a by (auto simp add: parse_fields_def split: sum.splits dest: validate_same)
  have c: "\<forall>flds f. truthy (flds k) \<and> fallbacks text flds = Inr f \<longrightarrow> f k = flds k"
    by (auto dest: fallbacks_keep)
  have d: "extract_fields text = fallbacks (apply_corrections text) p"
    using assms(1) by (simp add: extract_fields_def Let_def)
  from a b c d show ?thesis by blast
qed

section \<open>Concrete runs\<close>

lemma items_Inr:
  "map_sum id items x = Inr kvs \<Longrightarrow> \<exists>flds. x = Inr flds \<and> items flds = kvs"
  by (cases x) auto

lemma items_at:
  "items flds = [(EmployeeID, a), (Name, b), (Department, c), (TestDate, d), (TestType, e),
     (Result, f), (Notes, g)] \<Longrightarrow>
   flds EmployeeID = a \<and> flds Name = b \<and> flds Department = c \<and> flds TestDate = d \<and>
   flds TestType = e \<and> flds Result = f \<and> flds Notes = g"
  by (simp add: items_def field_keys_def)

text \<open>
  The run of claim C3 at the text \<open>Department: IT\<close>, with a store that holds the header only.
\<close>

theorem C3_witness:
  "(\<exists>flds. extract_fields ''Department: IT'' = Inr flds \<and> \<not> truthy (flds Name))
   \<and> parse_fields ''Department: IT'' = Inl (incomplete [Name, TestDate, TestType])
   \<and> select_image (map (map Some)) (Some [(((0, 0), (5, 0), (5, 5), (0, 5)), ''Department: IT'', ())])
        (Some \<lparr>header = column_order, body = []\<rparr>) =
       (Some \<lparr>header = column_order, body = []\<rparr>, Failed (incomplete [Name, TestDate, TestType]))"
proof -
  have "map_sum id items (extract_fields ''Department: IT'') =
      Inr [(EmployeeID, None), (Name, None), (Department, Some ''IT''), (TestDate, None),
           (TestType, None), (Result, None), (Notes, None)]"
    by code_simp
  then obtain flds where e: "extract_fields ''Department: IT'' = Inr flds"
    and i: "items flds = [(EmployeeID, None), (Name, None), (Department, Some ''IT''),
           (TestDate, None), (TestType, None), (Result, None), (Notes, None)]"
    using items_Inr by blast
  have v: "flds Name = None" "flds TestDate = None" "flds TestType = None"
    using items_at [OF i] by simp_all
  have n: "\<not> truthy (flds Name) \<or> \<not> truthy (flds TestDate) \<or> \<not> truthy (flds TestType)"
    using v by simp
  have t: "extract_text_from_image [(((0, 0), (5, 0), (5, 5), (0, 5)), ''Department: IT'', ())]
        = ''Department: IT''"
    by (simp add: extract_text_from_image_def)
  note main = C3_incomplete_fails_before_storage [OF e n,
        of "[(((0, 0), (5, 0), (5, 5), (0, 5)), ''Department: IT'', ())]" "map (map Some)"
           "Some \<lparr>header = column_order, body = []\<rparr>"]
  note m1 = main [THEN conjunct1]
  note m2 = main [THEN conjunct2, THEN conjunct2, THEN conjunct1]
  have l: "filter (\<lambda>k. \<not> truthy (flds k)) [Name, TestDate, TestType] = [Name, TestDate, TestType]"
    using v by simp
  from m1 m2 t l e v show ?thesis by auto
qed

text \<open>
  The run of claim C6 at \<open>TestType: Hairy Blood\<close>: the labelled pattern sets TestType to
  \<open>Hairy\<close>, and the vocabulary fallback, which would find \<open>Blood\<close>, leaves it.
\<close>

theorem C6_witness:
  "\<exists>p f. primary_loop (apply_corrections ''TestType: Hairy Blood'') patterns init_fields = Inr p
     \<and> truthy (p TestType)
     \<and> extract_fields ''TestType: Hairy Blood'' = Inr f
     \<and> f TestType = p TestType \<and> f TestType = Some ''Hairy''"
proof -
  have "map_sum id items (primary_loop (apply_corrections ''TestType: Hairy Blood'') patterns init_fields) =
      Inr [(EmployeeID, None), (Name, None), (Department, None), (TestDate, None),
           (TestType, Some ''Hairy''), (Result, None), (Notes, None)]"
    by code_simp
  then obtain p where p: "primary_loop (apply_corrections ''TestType: Hairy Blood'') patterns init_fields = Inr p"
    and ip: "items p = [(EmployeeID, None), (Name, None), (Department, None), (TestDate, None),
           (TestType, Some ''Hairy''), (Result, None), (Notes, None)]"
    using items_Inr by blast
  have tp: "p TestType = Some ''Hairy''"
    using items_at [OF ip] by simp
  then have t: "truthy (p TestType)" by simp
  have "map_sum id items (extract_fields ''TestType: Hairy Blood'') =
      Inr [(EmployeeID, None), (Name, None), (Department, None), (TestDate, None),
           (TestType, Some ''Hairy''), (Result, None), (Notes, None)]"
    by code_simp
  then obtain f where f: "extract_fields ''TestType: Hairy Blood'' = Inr f"
    using items_Inr by blast
  have "f TestType = p TestType"
    using C6_set_field_not_overwritten [OF p t] f by blast
  with p t f tp show ?thesis by auto
qed

text \<open>
  Claim C1. For the text of the end-to-end scenario the claim expects Name \<open>Peter Brifon\<close>
  and Department \<open>IT\<close>. The classes \<open>[A-Za-z\s]+\<close> of the Name and Department patterns
  run on over the blank into the next label and stop at its colon only, so
  \<open>parse_fields\<close> returns Name \<open>Peter Brifon Department\<close> and Department
  \<open>IT TestDate\<close>; the other five fields are as the claim says.
\<close>

theorem C1_scenario_actual_record:
  "map_sum id items
     (parse_fields ''Name: Peter Brifon Department: IT TestDate: 9/14/2025 TestType: Blood Result: Negative Notes: Random test'') =
   Inr [(EmployeeID, None), (Name, Some ''Peter Brifon Department''),
        (Department, Some ''IT TestDate''), (TestDate, Some ''2025-09-14''),
        (TestType, Some ''Blood''), (Result, Some ''Negative''), (Notes, Some ''Random test'')]"
  by code_simp

text \<open>
  Claim C2. \<open>2/30/2025\<close> has the shape of a date and is no calendar date: the \<open>try\<close>
  of the labelled stage ends in \<open>ValueError\<close> and clears the field. The fallback then
  finds the same text again and stores it as it is, so the TestDate of the record
  returned is \<open>2/30/2025\<close> and not empty.
\<close>

theorem C2_invalid_date_kept_by_fallback:
  "to_iso ''2/30/2025'' = Inl (ValueError ''day is out of range for month'')
   \<and> map_sum id items (parse_fields ''Name: Bob, TestType: Blood, TestDate: 2/30/2025'') =
     Inr [(EmployeeID, None), (Name, Some ''Bob''), (Department, None),
          (TestDate, Some ''2/30/2025''), (TestType, Some ''Blood''), (Result, None), (Notes, None)]"
  by code_simp

text \<open>
  Claim C5. A date without the label \<open>TestDate\<close> is found by the fallback, which stores
  the text matched, \<open>9/14/2025\<close>, without bringing it into the form \<open>YYYY-MM-DD\<close>.
  The second text is made of the misreadings that the table of corrections lists: the
  correction of \<open>414n) 025\<close> gives a date without a label, and the record returned has
  it as \<open>9/14/2025\<close> as well.
\<close>

theorem C5_fallback_date_not_iso:
  "map_sum id items (parse_fields ''Name: Bob, TestType: Blood, 9/14/2025'') =
     Inr [(EmployeeID, None), (Name, Some ''Bob''), (Department, None),
          (TestDate, Some ''9/14/2025''), (TestType, Some ''Blood''), (Result, None), (Notes, None)]
   \<and> \<not> iso_shape ''9/14/2025''
   \<and> map_sum id items
        (parse_fields ''EmPloxe TUl 91 91 Nam e [ Peloarz Go kon TT 414n) 025 Test Tz/c7 Bloos Koroj Kegaon +ot No ko Ronv om +est'') =
     Inr [(EmployeeID, Some ''911911''), (Name, Some ''Peter Brifon IT''), (Department, Some ''IT''),
          (TestDate, Some ''9/14/2025''), (TestType, Some ''Blood''), (Result, Some ''Negative''),
          (Notes, Some ''Random test'')]"
  by code_simp

section \<open>Reconstruction\<close>

text \<open>
  Claim C7. The reconstructed text is the texts of the fragments, joined by single
  blanks, in an order that is ascending in the y-coordinate of the top left corner, is a
  rearrangement of the fragments given, and keeps fragments of equal y-coordinate in the
  order given (the sort is stable). Fragments at y = 50, 10, 30 come out as 10, 30, 50.
\<close>

theorem C7_reconstruction_sorted_stable:
  "(\<exists>ordered.
      extract_text_from_image result = join '' '' (map (\<lambda>x. fst (snd x)) ordered)
      \<and> sorted (map top_left_y ordered)
      \<and> mset ordered = mset result
      \<and> (\<forall>y. filter (\<lambda>x. top_left_y x = y) ordered = filter (\<lambda>x. top_left_y x = y) result))
   \<and> extract_text_from_image
        [(((0, 50), (9, 50), (9, 59), (0, 59)), ''bottom'', c1),
         (((0, 10), (9, 10), (9, 19), (0, 19)), ''top'', c2),
         (((0, 30), (9, 30), (9, 39), (0, 39)), ''middle'', c3)] = ''top middle bottom''"
proof
  show "\<exists>ordered.
      extract_text_from_image result = join '' '' (map (\<lambda>x. fst (snd x)) ordered)
      \<and> sorted (map top_left_y ordered)
      \<and> mset ordered = mset result
      \<and> (\<forall>y. filter (\<lambda>x. top_left_y x = y) ordered = filter (\<lambda>x. top_left_y x = y) result)"
    by (rule exI [of _ "sort_key top_left_y result"])
       (simp add: extract_text_from_image_def Let_def comp_def sort_key_stable)
  show "extract_text_from_image
        [(((0, 50), (9, 50), (9, 59), (0, 59)), ''bottom'', c1),
         (((0, 10), (9, 10), (9, 19), (0, 19)), ''top'', c2),
         (((0, 30), (9, 30), (9, 39), (0, 39)), ''middle'', c3)] = ''top middle bottom''"
    by (simp add: extract_text_from_image_def top_left_y_def)
qed

section \<open>No exception but the validation error\<close>

lemma rmatch_keeps_group:
  "st' \<in> set (rmatch ic r st) \<Longrightarrow> snd st \<noteq> None \<Longrightarrow> snd st' \<noteq> None"
proof (induction r arbitrary: st st')
  case (Lit w)
  then show ?case by (auto split: if_splits)
next
  case (Rep cls lo hi greedy)
  then show ?case by (auto simp add: Let_def split: if_splits)
next
  case (Seq a b)
  from Seq.prems(1) obtain s where s: "s \<in> set (rmatch ic a st)" and t: "st' \<in> set (rmatch ic b s)"
    by auto
  have "snd s \<noteq> None" using Seq.IH(1) s Seq.prems(2) by blast
  then show ?case using Seq.IH(2) t by blast
next
  case (Alt a b)
  from Alt.prems(1) have "st' \<in> set (rmatch ic a st) \<or> st' \<in> set (rmatch ic b st)"
    by simp
  then show ?case using Alt.IH Alt.prems(2) by blast
next
  case (Group a)
  then show ?case by auto
next
  case (Lookahead a)
  then show ?case by (auto split: if_splits)
next
  case Eos
  then show ?case by (auto split: if_splits)
qed

lemma rmatch_sets_group:
  "sets_group r \<Longrightarrow> st' \<in> set (rmatch ic r st) \<Longrightarrow> snd st' \<noteq> None"
proof (induction r arbitrary: st st')
  case (Seq a b)
  from Seq.prems(2) obtain s where s: "s \<in> set (rmatch ic a st)" and t: "st' \<in> set (rmatch ic b s)"
    by auto
  show ?case
  proof (cases "sets_group b")
    case True
    then show ?thesis using Seq.IH(2) t by blast
  next
    case False
    then have "sets_group a" using Seq.prems(1) by simp
    then have "snd s \<noteq> None" using Seq.IH(1) s by blast
    then show ?thesis using rmatch_keeps_group t by blast
  qed
next
  case (Alt a b)
  from Alt.prems(2) have "st' \<in> set (rmatch ic a st) \<or> st' \<in> set (rmatch ic b st)"
    by simp
  moreover from Alt.prems(1) have "sets_group a" "sets_group b"
    by simp_all
  ultimately show ?case using Alt.IH by blast
qed auto

lemma match_at_group:
  assumes "sets_group r" and "match_at ic r s = Some m"
  shows "group1 m \<noteq> None"
proof (cases "rmatch ic r (s, None)")
  case Nil
  then show ?thesis using assms(2) by (simp add: match_at_def)
next
  case (Cons st sts)
  then have "st \<in> set (rmatch ic r (s, None))" by simp
  then have "snd st \<noteq> None" using assms(1) rmatch_sets_group by blast
  then show ?thesis using assms(2) Cons by (auto simp add: match_at_def)
qed

lemma re_search_at:
  "re_search ic r s = Some m \<Longrightarrow> \<exists>i \<le> length s. match_at ic r (drop i s) = Some m"
proof (induction s)
  case Nil
  then show ?case by simp
next
  case (Cons c cs)
  show ?case
  proof (cases "match_at ic r (c # cs)")
    case None
    then have "re_search ic r cs = Some m" using Cons.prems by simp
    then obtain i where "i \<le> length cs" "match_at ic r (drop i cs) = Some m"
      using Cons.IH by blast
    then have "Suc i \<le> length (c # cs) \<and> match_at ic r (drop (Suc i) (c # cs)) = Some m"
      by simp
    then show ?thesis by blast
  next
    case (Some m')
    then have "match_at ic r (drop 0 (c # cs)) = Some m" using Cons.prems by simp
    then show ?thesis by blast
  qed
qed

lemma re_search_group:
  "sets_group r \<Longrightarrow> re_search ic r s = Some m \<Longrightarrow> group1 m \<noteq> None"
  using re_search_at match_at_group by blast

lemma int_py_error: "int_py s = Inl e \<Longrightarrow> \<exists>msg. e = ValueError msg"
  by (auto simp add: int_py_def split: if_splits)

lemma strptime_ymd_error: "strptime_ymd s = Inl e \<Longrightarrow> \<exists>msg. e = ValueError msg"
  by (auto simp add: strptime_ymd_def split: list.splits sum.splits option.splits if_splits)

lemma to_iso_error: "to_iso v = Inl e \<Longrightarrow> \<exists>msg. e = ValueError msg"
  by (auto simp add: to_iso_def Let_def split: list.splits sum.splits
      dest: int_py_error strptime_ymd_error)

lemma primary_step_total:
  assumes "sets_group (snd kp)"
  shows "\<exists>f. primary_step text kp flds = Inr f"
proof (cases "re_search True (snd kp) text")
  case None
  then show ?thesis by (simp add: primary_step_def)
next
  case (Some m)
  then obtain g where g: "group1 m = Some g"
    using assms re_search_group by blast
  show ?thesis
  proof (cases "to_iso (strip g)")
    case (Inl e)
    then obtain msg where "e = ValueError msg" using to_iso_error by blast
    then show ?thesis using Some g Inl by (simp add: primary_step_def Let_def)
  next
    case (Inr v)
    then show ?thesis using Some g by (simp add: primary_step_def Let_def)
  qed
qed

lemma primary_loop_total:
  "\<forall>kp \<in> set kps. sets_group (snd kp) \<Longrightarrow> \<exists>f. primary_loop text kps flds = Inr f"
proof (induction kps arbitrary: flds)
  case Nil
  then show ?case by simp
next
  case (Cons kp kps)
  then obtain f where "primary_step text kp flds = Inr f"
    using primary_step_total [of kp "text" flds] by auto
  then show ?case using Cons by simp
qed

lemma patterns_set_group: "\<forall>kp \<in> set patterns. sets_group (snd kp)"
  by (simp add: patterns_def pat_EmployeeID_def)

lemma fb_Notes_total: "\<exists>f. fb_Notes text flds = Inr f"
proof (cases "re_search True
                (Seq (Lit ''Notes'') (Seq (Rep [Space] 0 None True) (Group (Rep [Dot] 1 None True))))
                text")
  case None
  then show ?thesis by (simp add: fb_Notes_def)
next
  case (Some m)
  have "sets_group
          (Seq (Lit ''Notes'') (Seq (Rep [Space] 0 None True) (Group (Rep [Dot] 1 None True))))"
    by simp
  then have "group1 m \<noteq> None"
    using Some by (rule re_search_group)
  then show ?thesis using Some by (auto simp add: fb_Notes_def)
qed

lemma extract_fields_total: "\<exists>f. extract_fields text = Inr f"
proof -
  obtain p where "primary_loop (apply_corrections text) patterns init_fields = Inr p"
    using primary_loop_total [OF patterns_set_group] by blast
  then show ?thesis
    using fb_Notes_total by (simp add: extract_fields_def fallbacks_def Let_def)
qed

text \<open>
  Claim C8. For every text \<open>parse_fields\<close> either returns a record whose Name, TestDate
  and TestType are non-empty, or raises the \<open>ValueError\<close> \<open>Incomplete data\<close> that names
  one or more of these three; no other exception escapes: group 1 has taken part
  wherever the code reads it, and date parsing ends in nothing but \<open>ValueError\<close>, which
  the \<open>except\<close> clause catches.
\<close>

theorem C8_parse_fields_total:
  "(\<exists>f. parse_fields text = Inr f \<and> truthy (f Name) \<and> truthy (f TestDate) \<and> truthy (f TestType))
   \<or> (\<exists>ks. parse_fields text = Inl (incomplete ks) \<and> ks \<noteq> [] \<and> set ks \<subseteq> {Name, TestDate, TestType})"
proof -
  obtain f where f: "extract_fields text = Inr f"
    using extract_fields_total by blast
  show ?thesis
  proof (cases "truthy (f Name) \<and> truthy (f TestDate) \<and> truthy (f TestType)")
    case True
    then have "parse_fields text = Inr f"
      using f by (simp add: parse_fields_def validate_complete)
    then show ?thesis using True by blast
  next
    case False
    then have n: "\<not> truthy (f Name) \<or> \<not> truthy (f TestDate) \<or> \<not> truthy (f TestType)"
      by blast
    then have "parse_fields text = Inl (incomplete (missing f))"
      using f by (simp add: parse_fields_def validate_incomplete)
    moreover have "missing f \<noteq> []" using n by (auto simp add: missing_eq)
    moreover have "set (missing f) \<subseteq> {Name, TestDate, TestType}"
      by (auto simp add: missing_eq)
    ultimately show ?thesis by blast
  qed
qed

section \<open>The store after a run of calls\<close>






























text \<open>The dictionary that \<open>parse_fields\<close> returns has all seven keys.\<close>

lemma items_complete: "set column_order \<subseteq> fst ` set (items f)"
  by (simp add: items_def field_keys_def column_order_def)

lemma row_of_items: "row_of (items f) = map (\<lambda>c. cell_text (f c)) column_order"
  by (simp add: row_of_def items_def field_keys_def column_order_def dict_get_def)

section \<open>The digits of EmployeeID\<close>

lemma re_search_hit: "match_at ic r s = Some m \<Longrightarrow> re_search ic r s = Some m"
  by (cases s) simp_all

lemma re_search_skip:
  "\<forall>i<length pre. match_at ic r (drop i (pre @ s)) = None \<Longrightarrow>
   re_search ic r (pre @ s) = re_search ic r s"
proof (induction pre)
  case Nil
  then show ?case by simp
next
  case (Cons c pre)
  have "match_at ic r (drop 0 ((c # pre) @ s)) = None"
    using Cons.prems by blast
  then have h: "match_at ic r (c # pre @ s) = None" by simp
  have "\<forall>i<length pre. match_at ic r (drop i (pre @ s)) = None"
  proof (intro allI impI)
    fix i assume "i < length pre"
    then have "Suc i < length (c # pre)" by simp
    then have "match_at ic r (drop (Suc i) ((c # pre) @ s)) = None"
      using Cons.prems by blast
    then show "match_at ic r (drop i (pre @ s)) = None" by simp
  qed
  then show ?case using Cons.IH h by simp
qed

lemma lit_match_append: "lit_match ic w l \<Longrightarrow> lit_match ic w (l @ r)"
  by (induction ic w l rule: lit_match.induct) (auto split: if_splits)

lemma digit_plain:
  assumes "is_digit c"
  shows "\<not> is_space c" "\<not> is_upper c" "\<not> is_lower c" "c \<noteq> CHR '':''"
  using assms
  by (auto simp add: is_digit_def is_space_def is_upper_def is_lower_def less_eq_char_def)

lemma digit_in_class: "is_digit c \<Longrightarrow> in_class ic [Digit] c"
  by (simp add: in_class_def)

lemma digit_not_sep: "is_digit c \<Longrightarrow> \<not> in_class True [Chr (CHR '':''), Space] c"
  using digit_plain [of c] by (simp add: in_class_def lower_def upper_def)

lemma sep_in_class: "c = CHR '':'' \<or> is_space c \<Longrightarrow> in_class True [Chr (CHR '':''), Space] c"
  by (auto simp add: in_class_def)

lemma six_digits_run:
  assumes "list_all is_digit run" and "6 \<le> length run"
  shows "rmatch ic six_digits (run @ post, g) = [(drop 6 run @ post, g)]"
proof -
  let ?n = "length (takeWhile (in_class ic [Digit]) (run @ post))"
  have "takeWhile (in_class ic [Digit]) (run @ post) = run @ takeWhile (in_class ic [Digit]) post"
    using assms(1) by (simp add: takeWhile_append2 list_all_iff digit_in_class)
  then have "6 \<le> ?n" using assms(2) by simp
  then have "[6..<Suc (min 6 ?n)] = [6]"
    by (simp add: min_def upt_rec)
  then show ?thesis using assms(2) by (simp add: six_digits_def Let_def)
qed

lemma six_digits_none:
  "length (takeWhile is_digit s) < 6 \<Longrightarrow> match_at False six_digits s = None"
proof -
  assume a: "length (takeWhile is_digit s) < 6"
  have "in_class False [Digit] = is_digit"
    by (simp add: in_class_def fun_eq_iff)
  then show ?thesis using a by (simp add: match_at_def six_digits_def Let_def min_def)
qed

lemma group_six_digits_run:
  assumes "list_all is_digit run" and "6 \<le> length run"
  shows "rmatch ic (Group six_digits) (run @ post, g) = [(drop 6 run @ post, Some (take 6 run))]"
  using assms six_digits_run [OF assms, of ic post g] by simp

lemma seps_first:
  assumes "list_all (\<lambda>c. c = CHR '':'' \<or> is_space c) sep"
    and "list_all is_digit run" and "run \<noteq> []"
  shows "\<exists>sts. rmatch True seps (sep @ run @ post, g) = (run @ post, g) # sts"
proof -
  let ?P = "in_class True [Chr (CHR '':''), Space]"
  have "\<not> ?P (hd run)"
    using assms(2,3) by (cases run) (simp_all add: digit_not_sep)
  then have "takeWhile ?P (run @ post) = []"
    using assms(3) by (cases run) simp_all
  moreover have "\<forall>c \<in> set sep. ?P c"
    using assms(1) by (auto simp add: list_all_iff sep_in_class)
  ultimately have "takeWhile ?P (sep @ run @ post) = sep"
    by (simp add: takeWhile_append2)
  then have n: "length (takeWhile ?P (sep @ run @ post)) = length sep" by simp
  show ?thesis
    using n by (simp add: seps_def Let_def)
qed

lemma pat_EmployeeID_at_label:
  assumes "length lab = 10" and "lit_match True ''EmployeeID'' lab"
    and "list_all (\<lambda>c. c = CHR '':'' \<or> is_space c) sep"
    and "list_all is_digit run" and "6 \<le> length run"
  shows "\<exists>m. match_at True pat_EmployeeID (lab @ sep @ run @ post) = Some m
             \<and> group1 m = Some (take 6 run)"
proof -
  have l: "rmatch True (Lit ''EmployeeID'') (lab @ sep @ run @ post, None) = [(sep @ run @ post, None)]"
    using assms(1,2) by (simp add: lit_match_append)
  have "run \<noteq> []" using assms(5) by auto
  then obtain sts where s: "rmatch True seps (sep @ run @ post, None) = (run @ post, None) # sts"
    using seps_first [OF assms(3,4)] by blast
  have g: "rmatch True (Group six_digits) (run @ post, None) = [(drop 6 run @ post, Some (take 6 run))]"
    using assms(4,5) by (rule group_six_digits_run)
  have "rmatch True (Seq seps (Group six_digits)) (sep @ run @ post, None) =
      (drop 6 run @ post, Some (take 6 run)) # concat (map (rmatch True (Group six_digits)) sts)"
    using s g by simp
  then have "\<exists>rest. rmatch True pat_EmployeeID (lab @ sep @ run @ post, None) =
      (drop 6 run @ post, Some (take 6 run)) # rest"
    using l by (simp add: pat_EmployeeID_def)
  then show ?thesis by (auto simp add: match_at_def)
qed

lemma primary_step_other:
  "primary_step text kp flds = Inr f \<Longrightarrow> fst kp \<noteq> k \<Longrightarrow> f k = flds k"
  by (auto simp add: primary_step_def Let_def
      split: option.splits sum.splits pyerror.splits if_splits)

lemma primary_loop_other:
  "primary_loop text kps flds = Inr p \<Longrightarrow> \<forall>kp \<in> set kps. fst kp \<noteq> k \<Longrightarrow> p k = flds k"
proof (induction kps arbitrary: flds)
  case Nil
  then show ?case by simp
next
  case (Cons kp kps)
  then obtain f where f: "primary_step text kp flds = Inr f" and l: "primary_loop text kps f = Inr p"
    by (auto split: sum.splits)
  have "f k = flds k" using f Cons.prems(2) primary_step_other by auto
  moreover have "p k = f k" using Cons.IH [OF l] Cons.prems(2) by simp
  ultimately show ?case by simp
qed

lemma primary_loop_EmployeeID:
  assumes "primary_loop text patterns init_fields = Inr p"
  shows "\<exists>q. primary_step text (EmployeeID, pat_EmployeeID) init_fields = Inr q
             \<and> p EmployeeID = q EmployeeID"
proof -
  obtain rest where r: "patterns = (EmployeeID, pat_EmployeeID) # rest"
    and k: "\<forall>kp \<in> set rest. fst kp \<noteq> EmployeeID"
    by (simp add: patterns_def)
  obtain q where q: "primary_step text (EmployeeID, pat_EmployeeID) init_fields = Inr q"
    and l: "primary_loop text rest q = Inr p"
    using assms unfolding r by (auto split: sum.splits)
  have "p EmployeeID = q EmployeeID"
    using primary_loop_other [OF l k] .
  then show ?thesis using q by blast
qed

lemma strip_no_space: "\<forall>c \<in> set s. \<not> is_space c \<Longrightarrow> strip s = s"
proof -
  assume a: "\<forall>c \<in> set s. \<not> is_space c"
  have d: "\<And>xs. \<forall>c \<in> set xs. \<not> is_space c \<Longrightarrow> dropWhile is_space xs = xs"
    by (case_tac xs) auto
  have "dropWhile is_space s = s" using a d by blast
  moreover have "dropWhile is_space (rev s) = rev s" using a d [of "rev s"] by simp
  ultimately show ?thesis by (simp add: strip_def)
qed

lemma strip_digits: "list_all is_digit s \<Longrightarrow> strip s = s"
  using digit_plain(1) by (auto simp add: list_all_iff intro: strip_no_space)

lemma fb_Name_other: "k \<noteq> Name \<Longrightarrow> fb_Name text flds k = flds k"
  by (simp add: fb_Name_def split: option.splits)
lemma fb_Department_other: "k \<noteq> Department \<Longrightarrow> fb_Department text flds k = flds k"
  by (simp add: fb_Department_def split: option.splits)
lemma fb_TestDate_other: "k \<noteq> TestDate \<Longrightarrow> fb_TestDate text flds k = flds k"
  by (simp add: fb_TestDate_def split: option.splits)
lemma fb_TestType_other: "k \<noteq> TestType \<Longrightarrow> fb_TestType text flds k = flds k"
  by (simp add: fb_TestType_def split: option.splits)
lemma fb_Result_other: "k \<noteq> Result \<Longrightarrow> fb_Result text flds k = flds k"
  by (simp add: fb_Result_def split: option.splits)
lemma fb_Notes_other: "fb_Notes text flds = Inr f \<Longrightarrow> k \<noteq> Notes \<Longrightarrow> f k = flds k"
  by (auto simp add: fb_Notes_def split: option.splits if_splits)

lemma fallbacks_EmployeeID:
  assumes "fallbacks text p = Inr f"
  shows "f EmployeeID = fb_EmployeeID text p EmployeeID"
proof -
  let ?g = "fb_Result text (fb_TestType text (fb_TestDate text
          (fb_Department text (fb_Name text (fb_EmployeeID text p)))))"
  have "fb_Notes text ?g = Inr f" using assms by (simp add: fallbacks_def)
  then have "f EmployeeID = ?g EmployeeID" by (rule fb_Notes_other) simp
  then show ?thesis
    by (simp add: fb_Name_other fb_Department_other fb_TestDate_other fb_TestType_other
        fb_Result_other)
qed

text \<open>
  Claim C9. Let the corrected text hold a run of more than six digits. If the run
  follows the label \<open>EmployeeID\<close> and separators, and the labelled pattern matches at no
  earlier place, or if the labelled pattern matches nowhere and \<open>\d{6}\<close> matches at no
  place before the run, then EmployeeID is the first six digits of the run: neither
  pattern asks for the run to end after six digits.
\<close>

theorem C9_first_six_digits_of_longer_run:
  assumes "apply_corrections text0 = pre @ run @ post"
    and "list_all is_digit run" and "6 < length run"
  shows "((\<exists>head lab sep. pre = head @ lab @ sep \<and> length lab = 10
             \<and> lit_match True ''EmployeeID'' lab
             \<and> list_all (\<lambda>c. c = CHR '':'' \<or> is_space c) sep
             \<and> (\<forall>i<length head. match_at True pat_EmployeeID (drop i (pre @ run @ post)) = None))
          \<longrightarrow> (\<exists>f. extract_fields text0 = Inr f \<and> f EmployeeID = Some (take 6 run)))
       \<and> ((re_search True pat_EmployeeID (pre @ run @ post) = None
             \<and> (\<forall>i<length pre. match_at False six_digits (drop i (pre @ run @ post)) = None))
          \<longrightarrow> (\<exists>f. extract_fields text0 = Inr f \<and> f EmployeeID = Some (take 6 run)))"
proof -
  let ?t = "pre @ run @ post"
  obtain p where p: "primary_loop ?t patterns init_fields = Inr p"
    using primary_loop_total [OF patterns_set_group] by blast
  obtain f where f: "fallbacks ?t p = Inr f"
    using fb_Notes_total by (auto simp add: fallbacks_def)
  have e: "extract_fields text0 = Inr f"
    using p f assms(1) by (simp add: extract_fields_def Let_def)
  obtain q where q: "primary_step ?t (EmployeeID, pat_EmployeeID) init_fields = Inr q"
    and pq: "p EmployeeID = q EmployeeID"
    using primary_loop_EmployeeID [OF p] by blast
  have six: "6 \<le> length run" using assms(3) by simp
  have labelled: "f EmployeeID = Some (take 6 run)"
    if h: "pre = head @ lab @ sep" "length lab = 10" "lit_match True ''EmployeeID'' lab"
      "list_all (\<lambda>c. c = CHR '':'' \<or> is_space c) sep"
      "\<forall>i<length head. match_at True pat_EmployeeID (drop i ?t) = None"
    for head lab sep
  proof -
    obtain m where m: "match_at True pat_EmployeeID (lab @ sep @ run @ post) = Some m"
      and g: "group1 m = Some (take 6 run)"
      using pat_EmployeeID_at_label [OF h(2,3,4) assms(2) six] by blast
    have "re_search True pat_EmployeeID (head @ lab @ sep @ run @ post) =
        re_search True pat_EmployeeID (lab @ sep @ run @ post)"
      using h(1,5) by (intro re_search_skip) simp
    then have "re_search True pat_EmployeeID ?t = Some m"
      using h(1) re_search_hit [OF m] by simp
    moreover have "strip (take 6 run) = take 6 run"
      using assms(2) by (intro strip_digits) (auto simp add: list_all_iff dest: in_set_takeD)
    ultimately have "q EmployeeID = Some (take 6 run)"
      using q g by (auto simp add: primary_step_def Let_def)
    then have "truthy (p EmployeeID)" "p EmployeeID = Some (take 6 run)"
      using pq six by auto
    then show ?thesis using fallbacks_keep [OF f] by simp
  qed
  have unlabelled: "f EmployeeID = Some (take 6 run)"
    if h: "re_search True pat_EmployeeID ?t = None"
      "\<forall>i<length pre. match_at False six_digits (drop i ?t) = None"
  proof -
    have "q = init_fields" using q h(1) by (simp add: primary_step_def)
    then have n: "\<not> truthy (p EmployeeID)" using pq by (simp add: init_fields_def)
    have "match_at False six_digits (run @ post) = Some \<lparr>group0 = take 6 run, group1 = None\<rparr>"
      using six_digits_run [OF assms(2) six, of False post None] six
      by (simp add: match_at_def)
    then have "re_search False six_digits (run @ post) = Some \<lparr>group0 = take 6 run, group1 = None\<rparr>"
      by (rule re_search_hit)
    moreover have "re_search False six_digits ?t = re_search False six_digits (run @ post)"
      using h(2) by (rule re_search_skip)
    ultimately have "fb_EmployeeID ?t p EmployeeID = Some (take 6 run)"
      using n by (simp add: fb_EmployeeID_def)
    then show ?thesis using fallbacks_EmployeeID [OF f] by simp
  qed
  from e labelled unlabelled show ?thesis by blast
qed

text \<open>
  A run of seven digits after the label, and a run of seven digits without a label that
  comes after a run of five.
\<close>

theorem C9_witness:
  "(\<exists>f. extract_fields ''EmployeeID: 1234567'' = Inr f \<and> f EmployeeID = Some ''123456'')
   \<and> (\<exists>f. extract_fields ''id 12345 no 7654321 x'' = Inr f \<and> f EmployeeID = Some ''765432'')"
proof
  have c: "apply_corrections ''EmployeeID: 1234567'' = ''EmployeeID: '' @ ''1234567'' @ []"
    by code_simp
  have d: "list_all is_digit ''1234567''" by code_simp
  have l: "6 < length ''1234567''" by simp
  have m: "lit_match True ''EmployeeID'' ''EmployeeID''" by code_simp
  have s: "list_all (\<lambda>c. c = CHR '':'' \<or> is_space c) '': ''" by code_simp
  have "\<exists>head lab sep. ''EmployeeID: '' = head @ lab @ sep \<and> length lab = 10
             \<and> lit_match True ''EmployeeID'' lab
             \<and> list_all (\<lambda>c. c = CHR '':'' \<or> is_space c) sep
             \<and> (\<forall>i<length head. match_at True pat_EmployeeID
                    (drop i (''EmployeeID: '' @ ''1234567'' @ [])) = None)"
    using m s
    by (intro exI [of _ "[]"] exI [of _ "''EmployeeID''"] exI [of _ "'': ''"]) simp
  then have "\<exists>f. extract_fields ''EmployeeID: 1234567'' = Inr f
      \<and> f EmployeeID = Some (take 6 ''1234567'')"
    using C9_first_six_digits_of_longer_run [OF c d l] by blast
  then show "\<exists>f. extract_fields ''EmployeeID: 1234567'' = Inr f \<and> f EmployeeID = Some ''123456''"
    by simp
next
  have c: "apply_corrections ''id 12345 no 7654321 x'' = ''id 12345 no '' @ ''7654321'' @ '' x''"
    by code_simp
  have d: "list_all is_digit ''7654321''" by code_simp
  have l: "6 < length ''7654321''" by simp
  have n: "re_search True pat_EmployeeID (''id 12345 no '' @ ''7654321'' @ '' x'') = None"
    by code_simp
  have "\<forall>i \<in> set [0..<12]. match_at False six_digits
          (drop i (''id 12345 no '' @ ''7654321'' @ '' x'')) = None"
    by code_simp
  then have e: "\<forall>i<length ''id 12345 no ''. match_at False six_digits
          (drop i (''id 12345 no '' @ ''7654321'' @ '' x'')) = None"
    by simp
  have "\<exists>f. extract_fields ''id 12345 no 7654321 x'' = Inr f
      \<and> f EmployeeID = Some (take 6 ''7654321'')"
    using C9_first_six_digits_of_longer_run [OF c d l] n e by blast
  then show "\<exists>f. extract_fields ''id 12345 no 7654321 x'' = Inr f \<and> f EmployeeID = Some ''765432''"
    by simp
qed

section \<open>The casing of TestType and Result\<close>

lemma upper_lower: "upper (lower c) = upper c"
  by (cases c) (auto simp add: upper_def lower_def is_upper_def is_lower_def)

lemma char_eq_lower: "char_eq True a c \<Longrightarrow> lower c = lower a"
  by (auto simp add: char_eq_def split: if_splits)

lemma lit_match_take:
  "lit_match True w s \<Longrightarrow> length w \<le> length s \<and> map lower (take (length w) s) = map lower w"
  by (induction "True" w s rule: lit_match.induct) (auto split: if_splits dest: char_eq_lower)

lemma capitalize_cong: "map lower x = map lower y \<Longrightarrow> capitalize x = capitalize y"
proof (cases x)
  case Nil
  assume "map lower x = map lower y"
  then show ?thesis using Nil by simp
next
  case (Cons a as)
  assume e: "map lower x = map lower y"
  then obtain b bs where y: "y = b # bs" using Cons by (cases y) auto
  have "lower a = lower b" "map lower as = map lower bs"
    using e Cons y by simp_all
  moreover from this have "upper a = upper b"
    by (metis upper_lower)
  ultimately show ?thesis using Cons y by (simp add: capitalize_def)
qed

lemma lit_group0:
  assumes "lit_match True w s"
  shows "capitalize (take (length s - (length s - length w)) s) = capitalize w"
proof -
  have l: "length w \<le> length s" and m: "map lower (take (length w) s) = map lower w"
    using lit_match_take [OF assms] by simp_all
  have "capitalize (take (length w) s) = capitalize w"
    using m by (rule capitalize_cong)
  then show ?thesis using l by simp
qed

lemma vocabulary4:
  assumes "match_at True (Group (Alt (Lit a) (Alt (Lit b) (Alt (Lit c) (Lit d))))) s = Some m"
  shows "capitalize (group0 m) \<in> {capitalize a, capitalize b, capitalize c, capitalize d}"
  using assms
  by (auto simp add: match_at_def lit_group0 split: if_splits)

lemma vocabulary3:
  assumes "match_at True (Group (Alt (Lit a) (Alt (Lit b) (Lit c)))) s = Some m"
  shows "capitalize (group0 m) \<in> {capitalize a, capitalize b, capitalize c}"
  using assms
  by (auto simp add: match_at_def lit_group0 split: if_splits)

lemma fb_TestType_vocabulary:
  "fb_TestType text flds TestType \<in>
     {flds TestType, Some ''Blood'', Some ''Urine'', Some ''Hair'', Some ''Saliva''}"
proof (cases "re_search True
                (Group (Alt (Lit ''Blood'') (Alt (Lit ''Urine'') (Alt (Lit ''Hair'') (Lit ''Saliva'')))))
                text")
  case None
  then show ?thesis by (simp add: fb_TestType_def)
next
  case (Some m)
  then obtain i where "match_at True
      (Group (Alt (Lit ''Blood'') (Alt (Lit ''Urine'') (Alt (Lit ''Hair'') (Lit ''Saliva'')))))
      (drop i text) = Some m"
    using re_search_at by blast
  then have "capitalize (group0 m) \<in>
      {capitalize ''Blood'', capitalize ''Urine'', capitalize ''Hair'', capitalize ''Saliva''}"
    by (rule vocabulary4)
  moreover have "capitalize ''Blood'' = ''Blood''" "capitalize ''Urine'' = ''Urine''"
    "capitalize ''Hair'' = ''Hair''" "capitalize ''Saliva'' = ''Saliva''"
    by code_simp+
  ultimately show ?thesis using Some by (auto simp add: fb_TestType_def)
qed

lemma fb_Result_vocabulary:
  "fb_Result text flds Result \<in>
     {flds Result, Some ''Negative'', Some ''Positive'', Some ''Pending''}"
proof (cases "re_search True
                (Group (Alt (Lit ''Negative'') (Alt (Lit ''Positive'') (Lit ''Pending''))))
                text")
  case None
  then show ?thesis by (simp add: fb_Result_def)
next
  case (Some m)
  then obtain i where "match_at True
      (Group (Alt (Lit ''Negative'') (Alt (Lit ''Positive'') (Lit ''Pending''))))
      (drop i text) = Some m"
    using re_search_at by blast
  then have "capitalize (group0 m) \<in>
      {capitalize ''Negative'', capitalize ''Positive'', capitalize ''Pending''}"
    by (rule vocabulary3)
  moreover have "capitalize ''Negative'' = ''Negative''" "capitalize ''Positive'' = ''Positive''"
    "capitalize ''Pending'' = ''Pending''"
    by code_simp+
  ultimately show ?thesis using Some by (auto simp add: fb_Result_def)
qed

lemma rmatch_pieces:
  "st' \<in> set (rmatch ic r st) \<Longrightarrow>
   suffix (fst st') (fst st) \<and> (snd st' = snd st \<or> (\<exists>g. snd st' = Some g \<and> sublist g (fst st)))"
proof (induction r arbitrary: st st')
  case (Lit w)
  then show ?case by (auto simp add: suffix_drop split: if_splits)
next
  case (Rep cls lo hi greedy)
  then show ?case by (auto simp add: Let_def suffix_drop split: if_splits)
next
  case (Seq a b)
  from Seq.prems obtain s where s: "s \<in> set (rmatch ic a st)" and t: "st' \<in> set (rmatch ic b s)"
    by auto
  have 1: "suffix (fst s) (fst st)"
    and 2: "snd s = snd st \<or> (\<exists>g. snd s = Some g \<and> sublist g (fst st))"
    using Seq.IH(1) [OF s] by simp_all
  have 3: "suffix (fst st') (fst s)"
    and 4: "snd st' = snd s \<or> (\<exists>g. snd st' = Some g \<and> sublist g (fst s))"
    using Seq.IH(2) [OF t] by simp_all
  have "suffix (fst st') (fst st)" using 1 3 by (rule suffix_order.trans [rotated])
  moreover have "snd st' = snd st \<or> (\<exists>g. snd st' = Some g \<and> sublist g (fst st))"
    using 2 4 1 by (metis sublist_order.order.trans suffix_imp_sublist)
  ultimately show ?case by simp
next
  case (Alt a b)
  from Alt.prems have "st' \<in> set (rmatch ic a st) \<or> st' \<in> set (rmatch ic b st)"
    by simp
  then show ?case using Alt.IH by blast
next
  case (Group a)
  from Group.prems obtain s where s: "s \<in> set (rmatch ic a st)"
    and e: "st' = (fst s, Some (take (length (fst st) - length (fst s)) (fst st)))"
    by auto
  have "suffix (fst s) (fst st)" using Group.IH [OF s] by simp
  moreover have "sublist (take (length (fst st) - length (fst s)) (fst st)) (fst st)"
    by (simp add: prefix_imp_sublist take_is_prefix)
  ultimately show ?case using e by simp
next
  case (Lookahead a)
  then show ?case by (auto split: if_splits)
next
  case Eos
  then show ?case by (auto split: if_splits)
qed

lemma match_at_piece:
  assumes "match_at ic r s = Some m" and "group1 m = Some g"
  shows "sublist g s"
proof (cases "rmatch ic r (s, None)")
  case Nil
  then show ?thesis using assms(1) by (simp add: match_at_def)
next
  case (Cons st sts)
  then have "st \<in> set (rmatch ic r (s, None))" by simp
  then have "snd st = None \<or> (\<exists>g. snd st = Some g \<and> sublist g s)"
    using rmatch_pieces by fastforce
  moreover have "snd st = Some g" using assms Cons by (auto simp add: match_at_def)
  ultimately show ?thesis by auto
qed

lemma re_search_piece:
  assumes "re_search ic r s = Some m" and "group1 m = Some g"
  shows "sublist g s"
proof -
  obtain i where "match_at ic r (drop i s) = Some m"
    using assms(1) re_search_at by blast
  then have "sublist g (drop i s)" using assms(2) by (rule match_at_piece)
  then show ?thesis
    by (meson sublist_order.order.trans suffix_drop suffix_imp_sublist)
qed

lemma strip_piece: "sublist (strip g) g"
proof -
  have "suffix (dropWhile is_space g) g"
    by (rule suffix_dropWhile)
  moreover have "prefix (strip g) (dropWhile is_space g)"
    using suffix_dropWhile [of is_space "rev (dropWhile is_space g)"]
    by (simp add: strip_def suffix_to_prefix)
  ultimately show ?thesis
    by (meson prefix_imp_sublist sublist_order.order.trans suffix_imp_sublist)
qed

lemma primary_step_piece:
  assumes "primary_step text (k, r) flds = Inr f" and "k \<noteq> TestDate"
  shows "f k = flds k \<or> (\<exists>v. f k = Some v \<and> sublist v text)"
proof (cases "re_search True r text")
  case None
  then show ?thesis using assms by (simp add: primary_step_def)
next
  case (Some m)
  then obtain g where g: "group1 m = Some g"
    using assms by (cases "group1 m") (auto simp add: primary_step_def)
  have "sublist g text" using Some g by (rule re_search_piece)
  then have "sublist (strip g) text"
    using strip_piece by (meson sublist_order.order.trans)
  moreover have "f k = Some (strip g)"
    using assms Some g by (auto simp add: primary_step_def Let_def)
  ultimately show ?thesis by blast
qed

text \<open>
  Claim C10. Whatever the vocabulary fallbacks store is one of the words in the
  capitalised form of \<open>capitalize()\<close>; what a labelled pattern stores for TestType or
  Result is a piece of the text as it stands there. So \<open>URINE\<close> and \<open>NEGATIVE\<close> are
  stored as \<open>Urine\<close> and \<open>Negative\<close> when they are found without their labels, and
  unchanged when they follow them.
\<close>

theorem C10_casing_depends_on_stage:
  "fb_TestType text flds TestType \<in>
     {flds TestType, Some ''Blood'', Some ''Urine'', Some ''Hair'', Some ''Saliva''}
   \<and> fb_Result text flds Result \<in>
     {flds Result, Some ''Negative'', Some ''Positive'', Some ''Pending''}
   \<and> (\<forall>r f. primary_step text (TestType, r) flds = Inr f \<longrightarrow>
          f TestType = flds TestType \<or> (\<exists>v. f TestType = Some v \<and> sublist v text))
   \<and> (\<forall>r f. primary_step text (Result, r) flds = Inr f \<longrightarrow>
          f Result = flds Result \<or> (\<exists>v. f Result = Some v \<and> sublist v text))
   \<and> map_sum id items (parse_fields ''Name: Bob, TestDate: 9/14/2025, URINE, NEGATIVE'') =
       Inr [(EmployeeID, None), (Name, Some ''Bob''), (Department, None),
            (TestDate, Some ''2025-09-14''), (TestType, Some ''Urine''),
            (Result, Some ''Negative''), (Notes, None)]
   \<and> map_sum id items
         (parse_fields ''Name: Bob, TestDate: 9/14/2025, TestType: URINE, Result: NEGATIVE'') =
       Inr [(EmployeeID, None), (Name, Some ''Bob''), (Department, None),
            (TestDate, Some ''2025-09-14''), (TestType, Some ''URINE''),
            (Result, Some ''NEGATIVE''), (Notes, None)]"
proof -
  have a: "\<forall>r f. primary_step text (TestType, r) flds = Inr f \<longrightarrow>
          f TestType = flds TestType \<or> (\<exists>v. f TestType = Some v \<and> sublist v text)"
    using primary_step_piece [of "text" TestType] by blast
  have b: "\<forall>r f. primary_step text (Result, r) flds = Inr f \<longrightarrow>
          f Result = flds Result \<or> (\<exists>v. f Result = Some v \<and> sublist v text)"
    using primary_step_piece [of "text" Result] by blast
  have c: "map_sum id items (parse_fields ''Name: Bob, TestDate: 9/14/2025, URINE, NEGATIVE'') =
       Inr [(EmployeeID, None), (Name, Some ''Bob''), (Department, None),
            (TestDate, Some ''2025-09-14''), (TestType, Some ''Urine''),
            (Result, Some ''Negative''), (Notes, None)]"
    by code_simp
  have d: "map_sum id items
         (parse_fields ''Name: Bob, TestDate: 9/14/2025, TestType: URINE, Result: NEGATIVE'') =
       Inr [(EmployeeID, None), (Name, Some ''Bob''), (Department, None),
            (TestDate, Some ''2025-09-14''), (TestType, Some ''URINE''),
            (Result, Some ''NEGATIVE''), (Notes, None)]"
    by code_simp
  from fb_TestType_vocabulary fb_Result_vocabulary a b c d show ?thesis by blast
qed

text \<open>The labelled stage at \<open>TestType: URINE\<close>, and the fallback at \<open>URINE\<close>.\<close>

theorem C10_witness:
  "\<exists>f. primary_step ''TestType: URINE''
          (TestType, Seq (Alt (Lit ''TestType'') (Lit ''Blood'')) (Seq seps (Group (Rep letters 1 None True))))
          init_fields = Inr f
      \<and> f TestType = Some ''URINE''
      \<and> sublist ''URINE'' ''TestType: URINE''
      \<and> fb_TestType ''URINE'' init_fields TestType = Some ''Urine''"
proof -
  let ?r = "Seq (Alt (Lit ''TestType'') (Lit ''Blood'')) (Seq seps (Group (Rep letters 1 None True)))"
  have "map_sum id items (primary_step ''TestType: URINE'' (TestType, ?r) init_fields) =
      Inr [(EmployeeID, None), (Name, None), (Department, None), (TestDate, None),
           (TestType, Some ''URINE''), (Result, None), (Notes, None)]"
    by code_simp
  then obtain f where f: "primary_step ''TestType: URINE'' (TestType, ?r) init_fields = Inr f"
    and i: "items f = [(EmployeeID, None), (Name, None), (Department, None), (TestDate, None),
           (TestType, Some ''URINE''), (Result, None), (Notes, None)]"
    using items_Inr by blast
  have v: "f TestType = Some ''URINE''"
    using items_at [OF i] by simp
  have "f TestType = init_fields TestType \<or> (\<exists>v. f TestType = Some v \<and> sublist v ''TestType: URINE'')"
    using C10_casing_depends_on_stage [of "''TestType: URINE''" init_fields] f by blast
  then have s: "sublist ''URINE'' ''TestType: URINE''"
    using v by (auto simp add: init_fields_def)
  have u: "fb_TestType ''URINE'' init_fields TestType = Some ''Urine''"
    by code_simp
  from f v s u show ?thesis by blast
qed

end
